theory Spec2Isabelle
  imports Main "HOL-Library.Sublist"
begin

section \<open>split\_bam\_by\_tag.py: the data\<close>

text \<open>
  The script reads alignment records from one stream and routes each of them, by the value
  of one tag, to one of two output streams, counting as it goes. Python exceptions are
  values of type \<open>error\<close>; \<^verbatim>\<open>assert\<close> statements are taken as enabled, which is
  the interpreter's default.
\<close>

datatype error = AssertionError | KeyError

text \<open>The parsed command line (\<^verbatim>\<open>args = parser.parse_args()\<close>), one field per argument.\<close>

record args =
  tag_id :: string
  tag_value :: string
  max_edit_dist :: int
  input_bam :: string
  output_bam_1 :: string
  output_bam_2 :: string
  discard_missing_tags :: bool

text \<open>
  Modelled from the spec: the record type of the alignment library (pysam's aligned segment,
  which is not part of the repository). The spec's data model gives a record a predicate
  "has tag T" and an accessor "value of tag T" that returns a variable-length string when
  the tag is present; everything else of the record is opaque and is kept in \<open>content\<close>.
  The accessor of the library raises \<^verbatim>\<open>KeyError\<close> for an absent tag.
\<close>

record entry =
  tags :: "(string \<times> string) list"
  content :: string

definition has_tag :: "entry \<Rightarrow> string \<Rightarrow> bool" where
  "has_tag e t = (case map_of (tags e) t of None \<Rightarrow> False | Some v \<Rightarrow> True)"

definition get_tag :: "entry \<Rightarrow> string \<Rightarrow> error + string" where
  "get_tag e t = (case map_of (tags e) t of None \<Rightarrow> Inl KeyError | Some v \<Rightarrow> Inr v)"

text \<open>
  What the script owns while it runs: the records written to the two output files, the
  counter list \<^verbatim>\<open>n\<close>, the lines printed, and for each of the three streams whether the
  script has called \<^verbatim>\<open>close\<close> on it. What the interpreter does to open files when the
  process ends is outside the script and outside this model.
\<close>

record state =
  outfile_1 :: "entry list"
  outfile_2 :: "entry list"
  n :: "nat list"
  infile_closed :: bool
  outfile_1_closed :: bool
  outfile_2_closed :: bool
  stdout :: "string list"

section \<open>The functions of the script\<close>

text \<open>
  \<^verbatim>\<open>def hamming(s1, s2): assert len(s1) == len(s2);
  return sum(c1 != c2 for c1, c2 in zip(s1, s2))\<close>
\<close>

definition hamming :: "'a list \<Rightarrow> 'a list \<Rightarrow> error + nat" where
  "hamming s1 s2 =
     (if length s1 = length s2
      then Inr (sum_list (map (\<lambda>(c1, c2). of_bool (c1 \<noteq> c2)) (zip s1 s2)))
      else Inl AssertionError)"

text \<open>\<^verbatim>\<open>outfile_1.write(entry)\<close>, \<^verbatim>\<open>outfile_2.write(entry)\<close> and \<^verbatim>\<open>n[i] += 1\<close>.\<close>

definition write_1 :: "entry \<Rightarrow> state \<Rightarrow> state" where
  "write_1 e s = s\<lparr>outfile_1 := outfile_1 s @ [e]\<rparr>"

definition write_2 :: "entry \<Rightarrow> state \<Rightarrow> state" where
  "write_2 e s = s\<lparr>outfile_2 := outfile_2 s @ [e]\<rparr>"

definition incr :: "nat \<Rightarrow> state \<Rightarrow> state" where
  "incr i s = s\<lparr>n := (n s)[i := n s ! i + 1]\<rparr>"

text \<open>
  The body of \<^verbatim>\<open>for entry in infile.fetch(until_eof=True)\<close>, lines 68 to 92: one
  record, the state before it, and either the exception it raises or the state after it.
\<close>

definition loop_body :: "args \<Rightarrow> state \<Rightarrow> entry \<Rightarrow> error + state" where
  "loop_body a s e =
     (if \<not> has_tag e (tag_id a) then
        (if discard_missing_tags a then Inr (incr 0 s)
         else Inr (incr 1 (write_2 e s)))
      else
        (case get_tag e (tag_id a) of
           Inl err \<Rightarrow> Inl err
         | Inr value_of_tag \<Rightarrow>
             (if max_edit_dist a > 0 then
                (case hamming (tag_value a) value_of_tag of
                   Inl err \<Rightarrow> Inl err
                 | Inr edit_dist \<Rightarrow>
                     (if int edit_dist \<le> max_edit_dist a
                      then Inr (incr 2 (write_1 e s))
                      else Inr (incr 1 (write_2 e s))))
              else
                (if value_of_tag = tag_value a
                 then Inr (incr 2 (write_1 e s))
                 else Inr (incr 1 (write_2 e s))))))"

text \<open>
  The loop over the records of the input stream. An exception ends it at once: the result
  is then the state reached before the record that raised, with the exception.
\<close>

fun loop :: "args \<Rightarrow> state \<Rightarrow> entry list \<Rightarrow> state \<times> error option" where
  "loop a s [] = (s, None)"
| "loop a s (e # es) =
     (case loop_body a s e of
        Inl err \<Rightarrow> (s, Some err)
      | Inr s' \<Rightarrow> loop a s' es)"

text \<open>Python's \<^verbatim>\<open>'%d' % k\<close>: the decimal digits, with a minus sign below zero.\<close>

fun str_nat :: "nat \<Rightarrow> string" where
  "str_nat k =
     (if k < 10 then [''0123456789'' ! k]
      else str_nat (k div 10) @ [''0123456789'' ! (k mod 10)])"

declare str_nat.simps [simp del]

definition fmt_d :: "int \<Rightarrow> string" where
  "fmt_d i = (if i < 0 then CHR ''-'' # str_nat (nat (- i)) else str_nat (nat i))"

text \<open>The four \<^verbatim>\<open>print\<close> calls of lines 96 to 99.\<close>

definition line_processed :: "nat \<Rightarrow> string" where
  "line_processed c = ''Processed '' @ fmt_d (int c) @ '' lines''"

definition line_missing :: "args \<Rightarrow> nat \<Rightarrow> string" where
  "line_missing a c = ''Found '' @ fmt_d (int c) @ '' lines without the tag '' @ tag_id a"

definition line_nomatch :: "args \<Rightarrow> nat \<Rightarrow> string" where
  "line_nomatch a c =
     ''Found '' @ fmt_d (int c) @ '' lines where '' @ tag_id a @ '' != '' @ tag_value a"

definition line_match :: "args \<Rightarrow> nat \<Rightarrow> string" where
  "line_match a c =
     ''Found '' @ fmt_d (int c) @ '' lines where '' @ tag_id a @ '' == '' @ tag_value a
       @ '' with an edit distance of maximum '' @ fmt_d (max_edit_dist a)"

definition summary :: "args \<Rightarrow> state \<Rightarrow> string list" where
  "summary a s =
     [line_processed (sum_list (n s)), line_missing a (n s ! 0),
      line_nomatch a (n s ! 1), line_match a (n s ! 2)]"

text \<open>
  The script from line 61 on, with the three streams opened: the input stream as the list
  of its records, both output files empty, \<^verbatim>\<open>n = [0, 0, 0]\<close>. After the loop come
  \<^verbatim>\<open>infile.close()\<close> and the four prints; an exception raised in the loop is not
  caught, so none of them is reached.
\<close>

definition init :: state where
  "init = \<lparr>outfile_1 = [], outfile_2 = [], n = [0, 0, 0], infile_closed = False,
            outfile_1_closed = False, outfile_2_closed = False, stdout = []\<rparr>"

definition main :: "args \<Rightarrow> entry list \<Rightarrow> state \<times> error option" where
  "main a infile =
     (case loop a init infile of
        (s, Some err) \<Rightarrow> (s, Some err)
      | (s, None) \<Rightarrow>
          (let s1 = s\<lparr>infile_closed := True\<rparr>
           in (s1\<lparr>stdout := stdout s1 @ summary a s1\<rparr>, None)))"

text \<open>
  The exit status of the interpreter: 0 when the script runs to its end, 1 when an
  exception is not caught.
\<close>

definition exit_status :: "state \<times> error option \<Rightarrow> nat" where
  "exit_status r = (case snd r of None \<Rightarrow> 0 | Some err \<Rightarrow> 1)"

section \<open>Notions of the specification\<close>

text \<open>
  The Hamming distance as the specification words it: the number of index positions at
  which the two sequences differ.
\<close>

definition hamming_distance_spec :: "'a list \<Rightarrow> 'a list \<Rightarrow> nat" where
  "hamming_distance_spec s1 s2 = length (filter (\<lambda>i. s1 ! i \<noteq> s2 ! i) [0..<length s1])"

text \<open>
  The outcome of one record (the specification's output assignment): which of the three
  branches of the loop body the record takes, or the exception it raises.
  Lemma \<open>loop_body_classify\<close> shows that the loop body acts on the state as the outcome says.
\<close>

datatype outcome = Discard | NoMatch | Match

definition classify :: "args \<Rightarrow> entry \<Rightarrow> error + outcome" where
  "classify a e =
     (if \<not> has_tag e (tag_id a) then
        (if discard_missing_tags a then Inr Discard else Inr NoMatch)
      else
        (case get_tag e (tag_id a) of
           Inl err \<Rightarrow> Inl err
         | Inr v \<Rightarrow>
             (if max_edit_dist a > 0 then
                (case hamming (tag_value a) v of
                   Inl err \<Rightarrow> Inl err
                 | Inr d \<Rightarrow> (if int d \<le> max_edit_dist a then Inr Match else Inr NoMatch))
              else (if v = tag_value a then Inr Match else Inr NoMatch))))"

definition apply_outcome :: "outcome \<Rightarrow> entry \<Rightarrow> state \<Rightarrow> state" where
  "apply_outcome oc e s =
     (case oc of
        Discard \<Rightarrow> incr 0 s
      | NoMatch \<Rightarrow> incr 1 (write_2 e s)
      | Match \<Rightarrow> incr 2 (write_1 e s))"

text \<open>The records of the input that the loop reads and finishes: those before the first
  record that raises.\<close>

definition processed :: "args \<Rightarrow> entry list \<Rightarrow> entry list" where
  "processed a infile = takeWhile (\<lambda>e. \<not> isl (classify a e)) infile"

definition matches :: "args \<Rightarrow> entry list \<Rightarrow> entry list" where
  "matches a es = filter (\<lambda>e. classify a e = Inr Match) es"

definition nomatches :: "args \<Rightarrow> entry list \<Rightarrow> entry list" where
  "nomatches a es = filter (\<lambda>e. classify a e = Inr NoMatch) es"

definition count_missing :: "args \<Rightarrow> entry list \<Rightarrow> nat" where
  "count_missing a es = length (filter (\<lambda>e. \<not> has_tag e (tag_id a)) es)"

text \<open>A record that carries the tag with a value whose length is not the target's.\<close>

definition length_mismatch :: "args \<Rightarrow> entry \<Rightarrow> bool" where
  "length_mismatch a e =
     (case get_tag e (tag_id a) of
        Inl err \<Rightarrow> False
      | Inr v \<Rightarrow> length v \<noteq> length (tag_value a))"

section \<open>Example inputs\<close>

text \<open>
  The command line \<^verbatim>\<open>RG A\<close> with every option at its default, and variants of it;
  records that carry the tag RG, and records that carry only another tag.
\<close>

definition args_RG_A :: args where
  "args_RG_A = \<lparr>tag_id = ''RG'', tag_value = ''A'', max_edit_dist = 0, input_bam = ''-'',
     output_bam_1 = ''with_specified_tag.bam'', output_bam_2 = ''without_specified_tag.bam'',
     discard_missing_tags = False\<rparr>"

definition args_RG_A_discard :: args where
  "args_RG_A_discard = args_RG_A\<lparr>discard_missing_tags := True\<rparr>"

definition args_RG_AC_1 :: args where
  "args_RG_AC_1 = args_RG_A\<lparr>tag_value := ''AC'', max_edit_dist := 1\<rparr>"

definition args_RG_AC_neg :: args where
  "args_RG_AC_neg = args_RG_A\<lparr>tag_value := ''AC'', max_edit_dist := - 2\<rparr>"

definition with_RG :: "string \<Rightarrow> string \<Rightarrow> entry" where
  "with_RG v c = \<lparr>tags = [(''NH'', ''1''), (''RG'', v)], content = c\<rparr>"

definition without_RG :: "string \<Rightarrow> entry" where
  "without_RG c = \<lparr>tags = [(''NH'', ''1'')], content = c\<rparr>"

text \<open>The specification's first example: tag values A, B, A, missing, AA.\<close>

definition five_records :: "entry list" where
  "five_records =
     [with_RG ''A'' ''r1'', with_RG ''B'' ''r2'', with_RG ''A'' ''r3'', without_RG ''r4'',
      with_RG ''AA'' ''r5'']"

text \<open>Tag values AC, AG, GG, then ACT of another length, then AC again.\<close>

definition mismatch_records :: "entry list" where
  "mismatch_records =
     [with_RG ''AC'' ''r1'', with_RG ''AG'' ''r2'', with_RG ''GG'' ''r3'',
      with_RG ''ACT'' ''r4'', with_RG ''AC'' ''r5'']"

section \<open>The loop body and the outcome\<close>

lemma loop_body_classify:
  "loop_body a s e =
     (case classify a e of Inl err \<Rightarrow> Inl err | Inr oc \<Rightarrow> Inr (apply_outcome oc e s))"
  by (simp add: loop_body_def classify_def apply_outcome_def split: sum.splits)

section \<open>The Hamming distance\<close>

lemma sum_zip_count:
  "length s1 = length s2 \<Longrightarrow>
   sum_list (map (\<lambda>(c1, c2). of_bool (c1 \<noteq> c2)) (zip s1 s2)) = hamming_distance_spec s1 s2"
proof (induction s1 s2 rule: list_induct2)
  case Nil
  show ?case by (simp add: hamming_distance_spec_def)
next
  case (Cons x xs y ys)
  have "[0..<Suc (length xs)] = 0 # map Suc [0..<length xs]"
    by (simp add: upt_conv_Cons map_Suc_upt del: upt_Suc)
  then have "hamming_distance_spec (x # xs) (y # ys)
      = of_bool (x \<noteq> y) + hamming_distance_spec xs ys"
    by (simp add: hamming_distance_spec_def filter_map comp_def del: upt_Suc)
  with Cons.IH show ?case by simp
qed

lemma hamming_distance_spec_le: "hamming_distance_spec s1 s2 \<le> length s1"
  unfolding hamming_distance_spec_def
  by (rule order_trans [OF length_filter_le]) simp

lemma hamming_distance_spec_same: "hamming_distance_spec s s = 0"
  by (simp add: hamming_distance_spec_def)

lemma hamming_equal_length:
  "length s1 = length s2 \<Longrightarrow> hamming s1 s2 = Inr (hamming_distance_spec s1 s2)"
  by (simp add: hamming_def sum_zip_count)

lemma hamming_unequal_length:
  "length s1 \<noteq> length s2 \<Longrightarrow> hamming s1 s2 = Inl AssertionError"
  by (simp add: hamming_def)

section \<open>The loop\<close>

lemma get_tag_has_tag: "has_tag e t \<Longrightarrow> \<exists>v. get_tag e t = Inr v"
  by (simp add: has_tag_def get_tag_def split: option.splits)

lemma get_tag_no_tag: "\<not> has_tag e t \<Longrightarrow> get_tag e t = Inl KeyError"
  by (simp add: has_tag_def get_tag_def split: option.splits)

lemma classify_error:
  "classify a e = Inl err \<Longrightarrow> err = AssertionError"
  by (auto simp: classify_def hamming_def dest: get_tag_has_tag split: if_splits sum.splits)

lemma classify_raises_iff:
  "isl (classify a e) \<longleftrightarrow>
     has_tag e (tag_id a) \<and> 0 < max_edit_dist a \<and>
     (\<exists>v. get_tag e (tag_id a) = Inr v \<and> length v \<noteq> length (tag_value a))"
  by (auto simp: classify_def hamming_def dest: get_tag_has_tag split: if_splits sum.splits)

lemma processed_Nil: "processed a [] = []"
  by (simp add: processed_def)

lemma processed_Cons:
  "processed a (e # es) = (if isl (classify a e) then [] else e # processed a es)"
  by (simp add: processed_def)

lemma loop_Cons_raise:
  "classify a e = Inl err \<Longrightarrow> loop a s (e # es) = (s, Some err)"
  by (simp add: loop_body_classify)

lemma loop_Cons_ok:
  "classify a e = Inr oc \<Longrightarrow> loop a s (e # es) = loop a (apply_outcome oc e s) es"
  by (simp add: loop_body_classify)

lemma loop_Nil: "loop a s [] = (s, None)"
  by simp

declare loop.simps [simp del]

lemma outfile_1_apply:
  "outfile_1 (apply_outcome oc e s) = outfile_1 s @ (if oc = Match then [e] else [])"
  by (simp add: apply_outcome_def incr_def write_1_def write_2_def split: outcome.splits)

lemma outfile_2_apply:
  "outfile_2 (apply_outcome oc e s) = outfile_2 s @ (if oc = NoMatch then [e] else [])"
  by (simp add: apply_outcome_def incr_def write_1_def write_2_def split: outcome.splits)

lemma n_apply:
  "n (apply_outcome oc e s) =
     (n s)[(case oc of Discard \<Rightarrow> 0 | NoMatch \<Rightarrow> 1 | Match \<Rightarrow> 2)
            := n s ! (case oc of Discard \<Rightarrow> 0 | NoMatch \<Rightarrow> 1 | Match \<Rightarrow> 2) + 1]"
  by (simp add: apply_outcome_def incr_def write_1_def write_2_def split: outcome.splits)

lemma rest_apply:
  "infile_closed (apply_outcome oc e s) = infile_closed s"
  "outfile_1_closed (apply_outcome oc e s) = outfile_1_closed s"
  "outfile_2_closed (apply_outcome oc e s) = outfile_2_closed s"
  "stdout (apply_outcome oc e s) = stdout s"
  by (simp_all add: apply_outcome_def incr_def write_1_def write_2_def split: outcome.splits)

lemma loop_outfile_1:
  "outfile_1 (fst (loop a s es)) = outfile_1 s @ matches a (processed a es)"
proof (induction es arbitrary: s)
  case Nil
  show ?case by (simp add: loop_Nil processed_Nil matches_def)
next
  case (Cons e es)
  show ?case
  proof (cases "classify a e")
    case (Inl err)
    then show ?thesis by (simp add: loop_Cons_raise processed_Cons matches_def)
  next
    case (Inr oc)
    then show ?thesis
      by (simp add: loop_Cons_ok Cons.IH processed_Cons matches_def outfile_1_apply)
  qed
qed

lemma loop_outfile_2:
  "outfile_2 (fst (loop a s es)) = outfile_2 s @ nomatches a (processed a es)"
proof (induction es arbitrary: s)
  case Nil
  show ?case by (simp add: loop_Nil processed_Nil nomatches_def)
next
  case (Cons e es)
  show ?case
  proof (cases "classify a e")
    case (Inl err)
    then show ?thesis by (simp add: loop_Cons_raise processed_Cons nomatches_def)
  next
    case (Inr oc)
    then show ?thesis
      by (simp add: loop_Cons_ok Cons.IH processed_Cons nomatches_def outfile_2_apply)
  qed
qed

lemma loop_error:
  "snd (loop a s es) = (if processed a es = es then None else Some AssertionError)"
proof (induction es arbitrary: s)
  case Nil
  show ?case by (simp add: loop_Nil processed_Nil)
next
  case (Cons e es)
  show ?case
  proof (cases "classify a e")
    case (Inl err)
    then show ?thesis
      using classify_error [OF Inl] by (simp add: loop_Cons_raise processed_Cons)
  next
    case (Inr oc)
    then show ?thesis by (simp add: loop_Cons_ok Cons.IH processed_Cons)
  qed
qed

lemma loop_untouched:
  "infile_closed (fst (loop a s es)) = infile_closed s \<and>
   outfile_1_closed (fst (loop a s es)) = outfile_1_closed s \<and>
   outfile_2_closed (fst (loop a s es)) = outfile_2_closed s \<and>
   stdout (fst (loop a s es)) = stdout s"
proof (induction es arbitrary: s)
  case Nil
  show ?case by (simp add: loop_Nil)
next
  case (Cons e es)
  show ?case
  proof (cases "classify a e")
    case (Inl err)
    then show ?thesis by (simp add: loop_Cons_raise)
  next
    case (Inr oc)
    then show ?thesis by (simp add: loop_Cons_ok Cons.IH rest_apply)
  qed
qed

lemma loop_n_length: "length (n (fst (loop a s es))) = length (n s)"
proof (induction es arbitrary: s)
  case Nil
  show ?case by (simp add: loop_Nil)
next
  case (Cons e es)
  show ?case
  proof (cases "classify a e")
    case (Inl err)
    then show ?thesis by (simp add: loop_Cons_raise)
  next
    case (Inr oc)
    then show ?thesis by (simp add: loop_Cons_ok Cons.IH n_apply)
  qed
qed

lemma sum_list_apply:
  "length (n s) = 3 \<Longrightarrow> sum_list (n (apply_outcome oc e s)) = sum_list (n s) + 1"
  by (cases oc) (simp_all add: n_apply sum_list_update)

lemma loop_sum:
  "length (n s) = 3 \<Longrightarrow>
   sum_list (n (fst (loop a s es))) = sum_list (n s) + length (processed a es)"
proof (induction es arbitrary: s)
  case Nil
  show ?case by (simp add: loop_Nil processed_Nil)
next
  case (Cons e es)
  show ?case
  proof (cases "classify a e")
    case (Inl err)
    then show ?thesis by (simp add: loop_Cons_raise processed_Cons)
  next
    case (Inr oc)
    have "length (n (apply_outcome oc e s)) = 3"
      using Cons.prems by (simp add: n_apply)
    then show ?thesis
      using Inr Cons.prems
      by (simp add: loop_Cons_ok Cons.IH processed_Cons sum_list_apply)
  qed
qed

lemma hamming_distance_spec_sym:
  "length s1 = length s2 \<Longrightarrow> hamming_distance_spec s1 s2 = hamming_distance_spec s2 s1"
proof -
  assume "length s1 = length s2"
  moreover have "(\<lambda>i. s1 ! i \<noteq> s2 ! i) = (\<lambda>i. s2 ! i \<noteq> s1 ! i)"
    by (rule ext) (rule arg_cong [where f = Not], rule eq_commute)
  ultimately show ?thesis by (simp add: hamming_distance_spec_def)
qed

section \<open>The whole run\<close>

lemma isl_classify:
  "isl (classify a e) \<longleftrightarrow> 0 < max_edit_dist a \<and> length_mismatch a e"
  by (auto simp: classify_raises_iff length_mismatch_def has_tag_def get_tag_def
      split: option.splits sum.splits)

lemma processed_all:
  "processed a es = es \<longleftrightarrow> (\<forall>e \<in> set es. \<not> isl (classify a e))"
  by (simp add: processed_def)

lemma processed_split:
  "es = processed a es @ dropWhile (\<lambda>e. \<not> isl (classify a e)) es"
  by (simp add: processed_def)

lemma processed_take:
  "k \<le> length (processed a es) \<Longrightarrow> processed a (take k es) = take k es"
proof -
  assume k: "k \<le> length (processed a es)"
  have "take k es = take k (processed a es @ dropWhile (\<lambda>e. \<not> isl (classify a e)) es)"
    using processed_split [of es a] by simp
  with k have eq: "take k es = take k (processed a es)"
    by simp
  have "\<forall>e \<in> set (take k (processed a es)). \<not> isl (classify a e)"
    unfolding processed_def by (auto dest!: in_set_takeD dest: set_takeWhileD)
  with eq show ?thesis
    by (simp add: processed_all)
qed

lemma prefix_matches: "prefix (matches a (processed a es)) (matches a es)"
proof -
  have "matches a es =
      matches a (processed a es) @ matches a (dropWhile (\<lambda>e. \<not> isl (classify a e)) es)"
    unfolding matches_def filter_append [symmetric] using processed_split [of es a] by simp
  then show ?thesis
    by (simp add: prefix_def)
qed

lemma prefix_nomatches: "prefix (nomatches a (processed a es)) (nomatches a es)"
proof -
  have "nomatches a es =
      nomatches a (processed a es) @ nomatches a (dropWhile (\<lambda>e. \<not> isl (classify a e)) es)"
    unfolding nomatches_def filter_append [symmetric] using processed_split [of es a] by simp
  then show ?thesis
    by (simp add: prefix_def)
qed

lemma main_finished:
  "processed a infile = infile \<Longrightarrow>
   main a infile =
     ((fst (loop a init infile))\<lparr>infile_closed := True,
        stdout := stdout (fst (loop a init infile)) @ summary a (fst (loop a init infile))\<rparr>,
      None)"
proof -
  assume "processed a infile = infile"
  then have "snd (loop a init infile) = None"
    by (simp add: loop_error)
  then obtain s where "loop a init infile = (s, None)"
    by (cases "loop a init infile") simp
  then show ?thesis
    by (simp add: main_def summary_def Let_def)
qed

lemma main_aborted:
  "processed a infile \<noteq> infile \<Longrightarrow>
   main a infile = (fst (loop a init infile), Some AssertionError)"
proof -
  assume "processed a infile \<noteq> infile"
  then have "snd (loop a init infile) = Some AssertionError"
    by (simp add: loop_error)
  then obtain s where "loop a init infile = (s, Some AssertionError)"
    by (cases "loop a init infile") simp
  then show ?thesis
    by (simp add: main_def)
qed

lemma main_error:
  "snd (main a infile) = (if processed a infile = infile then None else Some AssertionError)"
  by (simp add: main_finished main_aborted)

lemma main_outfile_1: "outfile_1 (fst (main a infile)) = matches a (processed a infile)"
  by (cases "processed a infile = infile")
    (simp_all add: main_finished main_aborted loop_outfile_1 init_def)

lemma main_outfile_2: "outfile_2 (fst (main a infile)) = nomatches a (processed a infile)"
  by (cases "processed a infile = infile")
    (simp_all add: main_finished main_aborted loop_outfile_2 init_def)

lemma main_n: "n (fst (main a infile)) = n (fst (loop a init infile))"
  by (cases "processed a infile = infile") (simp_all add: main_finished main_aborted)

lemma main_stdout:
  "stdout (fst (main a infile)) =
     (if processed a infile = infile then summary a (fst (loop a init infile)) else [])"
  by (cases "processed a infile = infile")
    (simp_all add: main_finished main_aborted loop_untouched init_def)

lemma main_closed:
  "infile_closed (fst (main a infile)) = (processed a infile = infile) \<and>
   \<not> outfile_1_closed (fst (main a infile)) \<and> \<not> outfile_2_closed (fst (main a infile))"
  by (cases "processed a infile = infile")
    (simp_all add: main_finished main_aborted loop_untouched init_def)

lemma classify_Discard:
  "classify a e = Inr Discard \<longleftrightarrow> \<not> has_tag e (tag_id a) \<and> discard_missing_tags a"
  by (auto simp: classify_def split: if_splits sum.splits)

lemma n0_apply:
  "length (n s) = 3 \<Longrightarrow>
   n (apply_outcome oc e s) ! 0 = n s ! 0 + (if oc = Discard then 1 else 0)"
  by (cases oc) (simp_all add: n_apply)

lemma loop_n0:
  "length (n s) = 3 \<Longrightarrow>
   n (fst (loop a s es)) ! 0 =
     n s ! 0 + (if discard_missing_tags a then count_missing a (processed a es) else 0)"
proof (induction es arbitrary: s)
  case Nil
  show ?case by (simp add: loop_Nil processed_Nil count_missing_def)
next
  case (Cons e es)
  show ?case
  proof (cases "classify a e")
    case (Inl err)
    then show ?thesis by (simp add: loop_Cons_raise processed_Cons count_missing_def)
  next
    case (Inr oc)
    have len: "length (n (apply_outcome oc e s)) = 3"
      using Cons.prems by (simp add: n_apply)
    have "(oc = Discard) = (\<not> has_tag e (tag_id a) \<and> discard_missing_tags a)"
      using Inr classify_Discard [of a e] by auto
    then show ?thesis
      using Inr Cons.prems
      by (simp add: loop_Cons_ok Cons.IH [OF len] processed_Cons count_missing_def n0_apply)
  qed
qed

lemma classify_NoMatch_count:
  "length (n s) = 3 \<Longrightarrow>
   n (apply_outcome oc e s) ! 1 = n s ! 1 + (if oc = NoMatch then 1 else 0)"
  by (cases oc) (simp_all add: n_apply)

lemma classify_Match_count:
  "length (n s) = 3 \<Longrightarrow>
   n (apply_outcome oc e s) ! 2 = n s ! 2 + (if oc = Match then 1 else 0)"
  by (cases oc) (simp_all add: n_apply)

lemma loop_n1:
  "length (n s) = 3 \<Longrightarrow>
   n (fst (loop a s es)) ! 1 = n s ! 1 + length (nomatches a (processed a es))"
proof (induction es arbitrary: s)
  case Nil
  show ?case by (simp add: loop_Nil processed_Nil nomatches_def)
next
  case (Cons e es)
  show ?case
  proof (cases "classify a e")
    case (Inl err)
    then show ?thesis by (simp add: loop_Cons_raise processed_Cons nomatches_def)
  next
    case (Inr oc)
    have len: "length (n (apply_outcome oc e s)) = 3"
      using Cons.prems by (simp add: n_apply)
    show ?thesis
      using Inr Cons.prems Cons.IH [OF len] classify_NoMatch_count [OF Cons.prems, of oc e]
      by (simp add: loop_Cons_ok processed_Cons nomatches_def)
  qed
qed

lemma loop_n2:
  "length (n s) = 3 \<Longrightarrow>
   n (fst (loop a s es)) ! 2 = n s ! 2 + length (matches a (processed a es))"
proof (induction es arbitrary: s)
  case Nil
  show ?case by (simp add: loop_Nil processed_Nil matches_def)
next
  case (Cons e es)
  show ?case
  proof (cases "classify a e")
    case (Inl err)
    then show ?thesis by (simp add: loop_Cons_raise processed_Cons matches_def)
  next
    case (Inr oc)
    have len: "length (n (apply_outcome oc e s)) = 3"
      using Cons.prems by (simp add: n_apply)
    show ?thesis
      using Inr Cons.prems Cons.IH [OF len] classify_Match_count [OF Cons.prems, of oc e]
      by (simp add: loop_Cons_ok processed_Cons matches_def)
  qed
qed

lemma processed_mismatch_conv:
  "0 < max_edit_dist a \<Longrightarrow>
   processed a infile = takeWhile (\<lambda>r. \<not> length_mismatch a r) infile"
  by (simp add: processed_def isl_classify)

lemma processed_nonpositive: "max_edit_dist a \<le> 0 \<Longrightarrow> processed a infile = infile"
  by (simp add: processed_all isl_classify)

lemma loop_body_nonpositive:
  "max_edit_dist a \<le> 0 \<Longrightarrow> loop_body a s e = loop_body (a\<lparr>max_edit_dist := 0\<rparr>) s e"
  by (auto simp: loop_body_def split: sum.splits)

lemma loop_nonpositive:
  "max_edit_dist a \<le> 0 \<Longrightarrow> loop a s es = loop (a\<lparr>max_edit_dist := 0\<rparr>) s es"
proof (induction es arbitrary: s)
  case Nil
  show ?case by (simp add: loop_Nil)
next
  case (Cons e es)
  then show ?case
    by (simp add: loop.simps loop_body_nonpositive [of a] split: sum.splits)
qed

section \<open>The example runs, evaluated\<close>

lemmas run_defs = main_def loop.simps loop_body_def has_tag_def get_tag_def hamming_def
  incr_def write_1_def write_2_def init_def summary_def line_processed_def line_missing_def
  line_nomatch_def line_match_def fmt_d_def str_nat.simps
  args_RG_A_def args_RG_A_discard_def args_RG_AC_1_def args_RG_AC_neg_def
  with_RG_def without_RG_def five_records_def mismatch_records_def

lemmas outcome_defs = processed_def classify_def matches_def nomatches_def count_missing_def
  length_mismatch_def has_tag_def get_tag_def hamming_def
  args_RG_A_def args_RG_A_discard_def args_RG_AC_1_def args_RG_AC_neg_def
  with_RG_def without_RG_def five_records_def mismatch_records_def

lemma run_five:
  "main args_RG_A five_records =
     (\<lparr>outfile_1 = [with_RG ''A'' ''r1'', with_RG ''A'' ''r3''],
       outfile_2 = [with_RG ''B'' ''r2'', without_RG ''r4'', with_RG ''AA'' ''r5''],
       n = [0, 3, 2], infile_closed = True, outfile_1_closed = False,
       outfile_2_closed = False,
       stdout = [''Processed 5 lines'', ''Found 0 lines without the tag RG'',
                 ''Found 3 lines where RG != A'',
                 ''Found 2 lines where RG == A with an edit distance of maximum 0'']\<rparr>,
      None)"
  by (simp add: run_defs)

lemma run_five_discard:
  "main args_RG_A_discard five_records =
     (\<lparr>outfile_1 = [with_RG ''A'' ''r1'', with_RG ''A'' ''r3''],
       outfile_2 = [with_RG ''B'' ''r2'', with_RG ''AA'' ''r5''],
       n = [1, 2, 2], infile_closed = True, outfile_1_closed = False,
       outfile_2_closed = False,
       stdout = [''Processed 5 lines'', ''Found 1 lines without the tag RG'',
                 ''Found 2 lines where RG != A'',
                 ''Found 2 lines where RG == A with an edit distance of maximum 0'']\<rparr>,
      None)"
  by (simp add: run_defs)

lemma run_mismatch:
  "main args_RG_AC_1 mismatch_records =
     (\<lparr>outfile_1 = [with_RG ''AC'' ''r1'', with_RG ''AG'' ''r2''],
       outfile_2 = [with_RG ''GG'' ''r3''],
       n = [0, 1, 2], infile_closed = False, outfile_1_closed = False,
       outfile_2_closed = False, stdout = []\<rparr>,
      Some AssertionError)"
  by (simp add: run_defs)

lemma run_mismatch_neg:
  "main args_RG_AC_neg mismatch_records =
     (\<lparr>outfile_1 = [with_RG ''AC'' ''r1'', with_RG ''AC'' ''r5''],
       outfile_2 = [with_RG ''AG'' ''r2'', with_RG ''GG'' ''r3'', with_RG ''ACT'' ''r4''],
       n = [0, 3, 2], infile_closed = True, outfile_1_closed = False,
       outfile_2_closed = False,
       stdout = [''Processed 5 lines'', ''Found 0 lines without the tag RG'',
                 ''Found 3 lines where RG != AC'',
                 ''Found 2 lines where RG == AC with an edit distance of maximum -2'']\<rparr>,
      None)"
  by (simp add: run_defs)

lemma processed_five: "processed args_RG_A five_records = five_records"
  by (simp add: outcome_defs)

lemma processed_mismatch:
  "processed args_RG_AC_1 mismatch_records
     = [with_RG ''AC'' ''r1'', with_RG ''AG'' ''r2'', with_RG ''GG'' ''r3'']"
  by (simp add: outcome_defs)

lemma matches_five:
  "matches args_RG_A five_records = [with_RG ''A'' ''r1'', with_RG ''A'' ''r3'']"
  by (simp add: outcome_defs)

lemma matches_mismatch:
  "matches args_RG_AC_1 mismatch_records
     = [with_RG ''AC'' ''r1'', with_RG ''AG'' ''r2'', with_RG ''AC'' ''r5'']"
  by (simp add: outcome_defs)

section \<open>Claims about single records\<close>

text \<open>
  Claim C6. On two sequences of equal length, \<open>hamming\<close> returns the number of index
  positions at which they differ; this number is at most the common length, and it is 0
  when the two sequences are the same. On sequences of unequal length the assertion fails
  and no value is returned.
\<close>

theorem hamming_counts_differing_positions:
  "(length s1 = length s2 \<longrightarrow>
      hamming s1 s2 = Inr (hamming_distance_spec s1 s2) \<and> hamming_distance_spec s1 s2 \<le> length s1)
   \<and> hamming s s = Inr 0
   \<and> (length s1 \<noteq> length s2 \<longrightarrow> hamming s1 s2 = Inl AssertionError)"
proof -
  have "hamming s s = Inr 0"
    by (simp add: hamming_equal_length hamming_distance_spec_same)
  moreover have "hamming_distance_spec s1 s2 \<le> length s1"
    by (rule hamming_distance_spec_le)
  ultimately show ?thesis
    by (simp add: hamming_equal_length hamming_unequal_length)
qed

theorem hamming_counts_differing_positions_witness:
  "length ''ACGT'' = length ''AGGA'' \<and> hamming ''ACGT'' ''AGGA'' = Inr 2
   \<and> hamming_distance_spec ''ACGT'' ''AGGA'' = 2
   \<and> hamming ''ACGT'' ''ACGT'' = Inr 0
   \<and> length ''AC'' \<noteq> length ''ACT'' \<and> hamming ''AC'' ''ACT'' = Inl AssertionError"
  using hamming_counts_differing_positions [of "''ACGT''" "''AGGA''" "''ACGT''"]
    hamming_counts_differing_positions [of "''AC''" "''ACT''" "''AC''"]
  by (simp add: hamming_distance_spec_def)

text \<open>
  Claim C3. A record that does not carry the tag: with \<^verbatim>\<open>--discard_missing_tags\<close> the
  only change of the state is that counter 0 goes up by one, so the record is written to
  neither file; without it the record is appended, as it is, to the second output file,
  counter 1 goes up by one, and the first output file is left as it was.
\<close>

theorem missing_tag_routing:
  "\<not> has_tag e (tag_id a) \<Longrightarrow>
     loop_body a s e =
       Inr (if discard_missing_tags a
            then s\<lparr>n := (n s)[0 := n s ! 0 + 1]\<rparr>
            else s\<lparr>outfile_2 := outfile_2 s @ [e], n := (n s)[1 := n s ! 1 + 1]\<rparr>)"
  by (simp add: loop_body_def incr_def write_2_def)

theorem missing_tag_routing_witness:
  "\<not> has_tag (without_RG ''r4'') (tag_id args_RG_A_discard)
   \<and> discard_missing_tags args_RG_A_discard
   \<and> loop_body args_RG_A_discard init (without_RG ''r4'') = Inr (init\<lparr>n := [1, 0, 0]\<rparr>)
   \<and> \<not> has_tag (without_RG ''r4'') (tag_id args_RG_A)
   \<and> \<not> discard_missing_tags args_RG_A
   \<and> loop_body args_RG_A init (without_RG ''r4'')
       = Inr (init\<lparr>outfile_2 := [without_RG ''r4''], n := [0, 1, 0]\<rparr>)"
proof -
  have h1: "\<not> has_tag (without_RG ''r4'') (tag_id args_RG_A_discard)"
    by (simp add: has_tag_def without_RG_def args_RG_A_discard_def args_RG_A_def)
  have h2: "\<not> has_tag (without_RG ''r4'') (tag_id args_RG_A)"
    by (simp add: has_tag_def without_RG_def args_RG_A_def)
  show ?thesis
    using h1 h2 missing_tag_routing [OF h1, of init] missing_tag_routing [OF h2, of init]
    by (simp add: init_def args_RG_A_discard_def args_RG_A_def)
qed

text \<open>
  Claim C4. A record that carries the tag, with \<^verbatim>\<open>max_edit_dist\<close> 0: the record is
  appended to the first output file and counter 2 goes up by one exactly when the value of
  the tag is equal to the target value, character for character; otherwise the record is
  appended to the second output file and counter 1 goes up by one.
\<close>

theorem exact_match_routing:
  "has_tag e (tag_id a) \<Longrightarrow> max_edit_dist a = 0 \<Longrightarrow>
     \<exists>v. get_tag e (tag_id a) = Inr v \<and>
       loop_body a s e =
         Inr (if v = tag_value a
              then s\<lparr>outfile_1 := outfile_1 s @ [e], n := (n s)[2 := n s ! 2 + 1]\<rparr>
              else s\<lparr>outfile_2 := outfile_2 s @ [e], n := (n s)[1 := n s ! 1 + 1]\<rparr>)"
proof -
  assume t: "has_tag e (tag_id a)" and d: "max_edit_dist a = 0"
  from t obtain v where v: "get_tag e (tag_id a) = Inr v"
    using get_tag_has_tag by blast
  with t d show ?thesis
    by (simp add: loop_body_def incr_def write_1_def write_2_def)
qed

theorem exact_match_routing_witness:
  "has_tag (with_RG ''A'' ''r1'') (tag_id args_RG_A) \<and> max_edit_dist args_RG_A = 0
   \<and> loop_body args_RG_A init (with_RG ''A'' ''r1'')
       = Inr (init\<lparr>outfile_1 := [with_RG ''A'' ''r1''], n := [0, 0, 1]\<rparr>)
   \<and> has_tag (with_RG ''a'' ''r2'') (tag_id args_RG_A)
   \<and> loop_body args_RG_A init (with_RG ''a'' ''r2'')
       = Inr (init\<lparr>outfile_2 := [with_RG ''a'' ''r2''], n := [0, 1, 0]\<rparr>)"
proof -
  have h1: "has_tag (with_RG ''A'' ''r1'') (tag_id args_RG_A)"
    by (simp add: has_tag_def with_RG_def args_RG_A_def)
  have h2: "has_tag (with_RG ''a'' ''r2'') (tag_id args_RG_A)"
    by (simp add: has_tag_def with_RG_def args_RG_A_def)
  have d: "max_edit_dist args_RG_A = 0"
    by (simp add: args_RG_A_def)
  show ?thesis
    using h1 h2 d exact_match_routing [OF h1 d, of init] exact_match_routing [OF h2 d, of init]
    by (simp add: init_def get_tag_def with_RG_def args_RG_A_def)
qed

text \<open>
  Claim C5. A record that carries the tag, with \<^verbatim>\<open>max_edit_dist\<close> above 0 and a tag
  value as long as the target value: the record is appended to the first output file and
  counter 2 goes up by one exactly when the Hamming distance between tag value and
  target value is at most \<^verbatim>\<open>max_edit_dist\<close>; otherwise the record is appended to the
  second output file and counter 1 goes up by one.
\<close>

theorem hamming_routing:
  "get_tag e (tag_id a) = Inr v \<Longrightarrow> 0 < max_edit_dist a \<Longrightarrow>
   length v = length (tag_value a) \<Longrightarrow>
     has_tag e (tag_id a) \<and>
     loop_body a s e =
       Inr (if int (hamming_distance_spec v (tag_value a)) \<le> max_edit_dist a
            then s\<lparr>outfile_1 := outfile_1 s @ [e], n := (n s)[2 := n s ! 2 + 1]\<rparr>
            else s\<lparr>outfile_2 := outfile_2 s @ [e], n := (n s)[1 := n s ! 1 + 1]\<rparr>)"
proof -
  assume v: "get_tag e (tag_id a) = Inr v" and d: "0 < max_edit_dist a"
    and l: "length v = length (tag_value a)"
  from v have t: "has_tag e (tag_id a)"
    by (simp add: has_tag_def get_tag_def split: option.splits)
  from l have "hamming (tag_value a) v = Inr (hamming_distance_spec v (tag_value a))"
    by (simp add: hamming_equal_length hamming_distance_spec_sym)
  with t v d show ?thesis
    by (simp add: loop_body_def incr_def write_1_def write_2_def)
qed

theorem hamming_routing_witness:
  "get_tag (with_RG ''AG'' ''r2'') (tag_id args_RG_AC_1) = Inr ''AG''
   \<and> 0 < max_edit_dist args_RG_AC_1 \<and> length ''AG'' = length (tag_value args_RG_AC_1)
   \<and> hamming_distance_spec ''AG'' (tag_value args_RG_AC_1) = 1
   \<and> loop_body args_RG_AC_1 init (with_RG ''AG'' ''r2'')
       = Inr (init\<lparr>outfile_1 := [with_RG ''AG'' ''r2''], n := [0, 0, 1]\<rparr>)
   \<and> get_tag (with_RG ''GG'' ''r3'') (tag_id args_RG_AC_1) = Inr ''GG''
   \<and> length ''GG'' = length (tag_value args_RG_AC_1)
   \<and> hamming_distance_spec ''GG'' (tag_value args_RG_AC_1) = 2
   \<and> loop_body args_RG_AC_1 init (with_RG ''GG'' ''r3'')
       = Inr (init\<lparr>outfile_2 := [with_RG ''GG'' ''r3''], n := [0, 1, 0]\<rparr>)"
proof -
  have g1: "get_tag (with_RG ''AG'' ''r2'') (tag_id args_RG_AC_1) = Inr ''AG''"
    by (simp add: get_tag_def with_RG_def args_RG_AC_1_def args_RG_A_def)
  have g2: "get_tag (with_RG ''GG'' ''r3'') (tag_id args_RG_AC_1) = Inr ''GG''"
    by (simp add: get_tag_def with_RG_def args_RG_AC_1_def args_RG_A_def)
  have d: "0 < max_edit_dist args_RG_AC_1"
    by (simp add: args_RG_AC_1_def args_RG_A_def)
  have l1: "length ''AG'' = length (tag_value args_RG_AC_1)"
    by (simp add: args_RG_AC_1_def args_RG_A_def)
  have l2: "length ''GG'' = length (tag_value args_RG_AC_1)"
    by (simp add: args_RG_AC_1_def args_RG_A_def)
  have v1: "hamming_distance_spec ''AG'' (tag_value args_RG_AC_1) = 1"
    by (simp add: hamming_distance_spec_def args_RG_AC_1_def args_RG_A_def)
  have v2: "hamming_distance_spec ''GG'' (tag_value args_RG_AC_1) = 2"
    by (simp add: hamming_distance_spec_def args_RG_AC_1_def args_RG_A_def)
  show ?thesis
    using g1 g2 d l1 l2 v1 v2 hamming_routing [OF g1 d l1, of init]
      hamming_routing [OF g2 d l2, of init]
    by (simp add: init_def args_RG_AC_1_def args_RG_A_def)
qed

section \<open>Claims about the whole run\<close>

text \<open>
  Claim C2. The three counters add up to the number of records processed. A record that
  the loop body finishes leaves the list at three counters, adds one to exactly one of
  them and so adds one to their sum; after the first \<open>k\<close> records of the input, none of
  which raised, the sum is \<open>k\<close>; at the end of the run the sum is the number of records
  processed, and when the run completes that is the number of records of the input, which
  the first summary line prints.
\<close>

theorem counter_sum_invariant:
  "(length (n s) = 3 \<and> loop_body a s e = Inr s' \<longrightarrow>
      length (n s') = 3 \<and> (\<exists>i<3. n s' = (n s)[i := n s ! i + 1])
      \<and> sum_list (n s') = sum_list (n s) + 1)
   \<and> (k \<le> length (processed a infile) \<longrightarrow>
        sum_list (n (fst (loop a init (take k infile)))) = k)
   \<and> sum_list (n (fst (main a infile))) = length (processed a infile)
   \<and> (snd (main a infile) = None \<longrightarrow>
        sum_list (n (fst (main a infile))) = length infile
        \<and> stdout (fst (main a infile)) ! 0 = line_processed (length infile))"
proof -
  have step: "length (n s') = 3 \<and> (\<exists>i<3. n s' = (n s)[i := n s ! i + 1])
      \<and> sum_list (n s') = sum_list (n s) + 1"
    if len: "length (n s) = 3" and body: "loop_body a s e = Inr s'"
  proof -
    from body obtain oc where s': "s' = apply_outcome oc e s"
      by (auto simp: loop_body_classify split: sum.splits)
    have "\<exists>i<3. n (apply_outcome oc e s) = (n s)[i := n s ! i + 1]"
    proof (cases oc)
      case Discard
      then show ?thesis by (intro exI [of _ 0]) (simp add: n_apply)
    next
      case NoMatch
      then show ?thesis by (intro exI [of _ 1]) (simp add: n_apply)
    next
      case Match
      then show ?thesis by (intro exI [of _ 2]) (simp add: n_apply)
    qed
    moreover have "length (n (apply_outcome oc e s)) = 3"
      using len by (simp add: n_apply)
    moreover have "sum_list (n (apply_outcome oc e s)) = sum_list (n s) + 1"
      using len by (rule sum_list_apply)
    ultimately show ?thesis
      unfolding s' by blast
  qed
  have init3: "length (n init) = 3" and init0: "sum_list (n init) = 0"
    by (simp_all add: init_def)
  have pre: "sum_list (n (fst (loop a init (take k infile)))) = k"
    if "k \<le> length (processed a infile)"
  proof -
    from that have "processed a (take k infile) = take k infile"
      by (rule processed_take)
    moreover from that have "k \<le> length infile"
      using length_takeWhile_le [of "\<lambda>e. \<not> isl (classify a e)" infile]
      by (simp add: processed_def)
    ultimately show ?thesis
      by (simp add: loop_sum [OF init3] init0)
  qed
  have total: "sum_list (n (fst (main a infile))) = length (processed a infile)"
    by (simp add: main_n loop_sum [OF init3] init0)
  have fin: "sum_list (n (fst (main a infile))) = length infile
      \<and> stdout (fst (main a infile)) ! 0 = line_processed (length infile)"
    if "snd (main a infile) = None"
  proof -
    from that have all: "processed a infile = infile"
      by (simp add: main_error split: if_splits)
    with total show ?thesis
      by (simp add: main_stdout summary_def loop_sum [OF init3] init0)
  qed
  from step pre total fin show ?thesis
    by blast
qed

theorem counter_sum_invariant_witness:
  "length (n init) = 3
   \<and> loop_body args_RG_A init (with_RG ''B'' ''r2'')
       = Inr (init\<lparr>outfile_2 := [with_RG ''B'' ''r2''], n := [0, 1, 0]\<rparr>)
   \<and> sum_list [0, 1, 0 :: nat] = sum_list (n init) + 1
   \<and> 2 \<le> length (processed args_RG_A five_records)
   \<and> sum_list (n (fst (loop args_RG_A init (take 2 five_records)))) = 2
   \<and> snd (main args_RG_A five_records) = None
   \<and> sum_list (n (fst (main args_RG_A five_records))) = 5
   \<and> stdout (fst (main args_RG_A five_records)) ! 0 = ''Processed 5 lines''"
proof -
  have b: "loop_body args_RG_A init (with_RG ''B'' ''r2'')
      = Inr (init\<lparr>outfile_2 := [with_RG ''B'' ''r2''], n := [0, 1, 0]\<rparr>)"
    by (simp add: run_defs)
  have l: "length (n init) = 3"
    by (simp add: init_def)
  have k: "2 \<le> length (processed args_RG_A five_records)"
    by (simp only: processed_five) (simp add: five_records_def)
  have f: "snd (main args_RG_A five_records) = None"
    by (simp add: run_five)
  show ?thesis
    using b l k f
      counter_sum_invariant [of init args_RG_A "with_RG ''B'' ''r2''"
        "init\<lparr>outfile_2 := [with_RG ''B'' ''r2''], n := [0, 1, 0]\<rparr>" 2 five_records]
    by (simp add: init_def five_records_def line_processed_def fmt_d_def str_nat.simps)
qed

text \<open>
  Claim C7. Order preservation. The records written to the first output file are the
  processed records whose outcome is \<open>Match\<close>, in input order, and the records written to
  the second output file are the processed records whose outcome is \<open>NoMatch\<close>, in input
  order. The processed records are those the pass assigns an outcome to; when the run
  completes they are the whole input.
\<close>

theorem order_preservation:
  "outfile_1 (fst (main a infile)) = filter (\<lambda>e. classify a e = Inr Match) (processed a infile)
   \<and> outfile_2 (fst (main a infile))
       = filter (\<lambda>e. classify a e = Inr NoMatch) (processed a infile)
   \<and> (snd (main a infile) = None \<longrightarrow>
        processed a infile = infile
        \<and> outfile_1 (fst (main a infile)) = filter (\<lambda>e. classify a e = Inr Match) infile
        \<and> outfile_2 (fst (main a infile)) = filter (\<lambda>e. classify a e = Inr NoMatch) infile)"
proof -
  have o1: "outfile_1 (fst (main a infile))
      = filter (\<lambda>e. classify a e = Inr Match) (processed a infile)"
    using main_outfile_1 [of a infile] by (simp add: matches_def)
  have o2: "outfile_2 (fst (main a infile))
      = filter (\<lambda>e. classify a e = Inr NoMatch) (processed a infile)"
    using main_outfile_2 [of a infile] by (simp add: nomatches_def)
  have "processed a infile = infile" if "snd (main a infile) = None"
    using that by (simp add: main_error split: if_splits)
  with o1 o2 show ?thesis
    by simp
qed

theorem order_preservation_witness:
  "snd (main args_RG_A five_records) = None
   \<and> outfile_1 (fst (main args_RG_A five_records))
       = [with_RG ''A'' ''r1'', with_RG ''A'' ''r3'']
   \<and> filter (\<lambda>e. classify args_RG_A e = Inr Match) five_records
       = [with_RG ''A'' ''r1'', with_RG ''A'' ''r3'']
   \<and> outfile_2 (fst (main args_RG_A five_records))
       = [with_RG ''B'' ''r2'', without_RG ''r4'', with_RG ''AA'' ''r5'']
   \<and> filter (\<lambda>e. classify args_RG_A e = Inr NoMatch) five_records
       = [with_RG ''B'' ''r2'', without_RG ''r4'', with_RG ''AA'' ''r5'']"
proof -
  have f: "snd (main args_RG_A five_records) = None"
    by (simp add: run_five)
  have m: "filter (\<lambda>e. classify args_RG_A e = Inr Match) five_records
      = [with_RG ''A'' ''r1'', with_RG ''A'' ''r3'']"
    using matches_five by (simp add: matches_def)
  have nm: "filter (\<lambda>e. classify args_RG_A e = Inr NoMatch) five_records
      = [with_RG ''B'' ''r2'', without_RG ''r4'', with_RG ''AA'' ''r5'']"
    by (simp add: outcome_defs)
  show ?thesis
    using f m nm order_preservation [of args_RG_A five_records]
    by simp
qed

text \<open>
  Claim C8. With \<^verbatim>\<open>max_edit_dist\<close> above 0, an input with a record whose tag value has
  not the length of the target value: the run ends with the assertion error at the first
  such record, prints no summary and exits with a status other than 0. What the two output
  files hold then is what was written for the records before that one, and it is a prefix
  of the \<open>Match\<close> records, and of the \<open>NoMatch\<close> records, of the whole input.
\<close>

theorem length_mismatch_aborts:
  "0 < max_edit_dist a \<Longrightarrow> e \<in> set infile \<Longrightarrow> length_mismatch a e \<Longrightarrow>
     snd (main a infile) = Some AssertionError
     \<and> stdout (fst (main a infile)) = []
     \<and> exit_status (main a infile) = 1
     \<and> processed a infile = takeWhile (\<lambda>r. \<not> length_mismatch a r) infile
     \<and> outfile_1 (fst (main a infile)) = matches a (processed a infile)
     \<and> outfile_2 (fst (main a infile)) = nomatches a (processed a infile)
     \<and> prefix (outfile_1 (fst (main a infile))) (matches a infile)
     \<and> prefix (outfile_2 (fst (main a infile))) (nomatches a infile)"
proof -
  assume d: "0 < max_edit_dist a" and e: "e \<in> set infile" and m: "length_mismatch a e"
  from d m have "isl (classify a e)"
    by (simp add: isl_classify)
  with e have stop: "processed a infile \<noteq> infile"
    by (auto simp: processed_all)
  then have err: "snd (main a infile) = Some AssertionError"
    by (simp add: main_error)
  from stop have out: "stdout (fst (main a infile)) = []"
    by (simp add: main_stdout)
  from err have ex: "exit_status (main a infile) = 1"
    by (simp add: exit_status_def)
  have conv: "processed a infile = takeWhile (\<lambda>r. \<not> length_mismatch a r) infile"
    using d by (rule processed_mismatch_conv)
  have "prefix (outfile_1 (fst (main a infile))) (matches a infile)"
    and "prefix (outfile_2 (fst (main a infile))) (nomatches a infile)"
    by (simp_all add: main_outfile_1 main_outfile_2 prefix_matches prefix_nomatches)
  with err out ex conv show ?thesis
    by (simp only: main_outfile_1 main_outfile_2 simp_thms)
qed

theorem length_mismatch_aborts_witness:
  "0 < max_edit_dist args_RG_AC_1 \<and> with_RG ''ACT'' ''r4'' \<in> set mismatch_records
   \<and> length_mismatch args_RG_AC_1 (with_RG ''ACT'' ''r4'')
   \<and> snd (main args_RG_AC_1 mismatch_records) = Some AssertionError
   \<and> stdout (fst (main args_RG_AC_1 mismatch_records)) = []
   \<and> exit_status (main args_RG_AC_1 mismatch_records) = 1
   \<and> outfile_1 (fst (main args_RG_AC_1 mismatch_records))
       = [with_RG ''AC'' ''r1'', with_RG ''AG'' ''r2'']
   \<and> prefix (outfile_1 (fst (main args_RG_AC_1 mismatch_records)))
       [with_RG ''AC'' ''r1'', with_RG ''AG'' ''r2'', with_RG ''AC'' ''r5'']
   \<and> outfile_2 (fst (main args_RG_AC_1 mismatch_records)) = [with_RG ''GG'' ''r3'']"
proof -
  have d: "0 < max_edit_dist args_RG_AC_1"
    by (simp add: args_RG_AC_1_def args_RG_A_def)
  have e: "with_RG ''ACT'' ''r4'' \<in> set mismatch_records"
    by (simp add: mismatch_records_def)
  have m: "length_mismatch args_RG_AC_1 (with_RG ''ACT'' ''r4'')"
    by (simp add: outcome_defs)
  have nm: "nomatches args_RG_AC_1 (processed args_RG_AC_1 mismatch_records)
      = [with_RG ''GG'' ''r3'']"
    by (simp add: outcome_defs)
  have ma: "matches args_RG_AC_1 (processed args_RG_AC_1 mismatch_records)
      = [with_RG ''AC'' ''r1'', with_RG ''AG'' ''r2'']"
    by (simp add: outcome_defs)
  show ?thesis
    using d e m nm ma matches_mismatch length_mismatch_aborts [OF d e m]
    by simp
qed

text \<open>
  Claim C10. With \<^verbatim>\<open>max_edit_dist\<close> at or below 0 the loop body, and so the loop, does
  what it does with \<^verbatim>\<open>max_edit_dist\<close> 0; \<open>hamming\<close> is not called, no record raises,
  every run completes, and a record whose tag value has not the length of the target
  value has outcome \<open>NoMatch\<close>: it is appended to the second output file and counter 1
  goes up by one.
\<close>

theorem nonpositive_edit_dist_is_exact_match:
  "max_edit_dist a \<le> 0 \<Longrightarrow>
     loop_body a s e = loop_body (a\<lparr>max_edit_dist := 0\<rparr>) s e
     \<and> loop a s infile = loop (a\<lparr>max_edit_dist := 0\<rparr>) s infile
     \<and> loop_body a s e \<noteq> Inl AssertionError
     \<and> snd (main a infile) = None
     \<and> (length_mismatch a e \<longrightarrow>
          classify a e = Inr NoMatch
          \<and> loop_body a s e
              = Inr (s\<lparr>outfile_2 := outfile_2 s @ [e], n := (n s)[1 := n s ! 1 + 1]\<rparr>))"
proof -
  assume d: "max_edit_dist a \<le> 0"
  then have "\<not> isl (classify a e)"
    by (simp add: isl_classify)
  then have noraise: "loop_body a s e \<noteq> Inl AssertionError"
    by (auto simp: loop_body_classify split: sum.splits)
  from d have fin: "snd (main a infile) = None"
    by (simp add: main_error processed_nonpositive)
  have mis: "classify a e = Inr NoMatch
      \<and> loop_body a s e
          = Inr (s\<lparr>outfile_2 := outfile_2 s @ [e], n := (n s)[1 := n s ! 1 + 1]\<rparr>)"
    if "length_mismatch a e"
  proof -
    from that obtain v where v: "get_tag e (tag_id a) = Inr v"
      and l: "length v \<noteq> length (tag_value a)"
      by (auto simp: length_mismatch_def split: sum.splits)
    from v have t: "has_tag e (tag_id a)"
      by (simp add: has_tag_def get_tag_def split: option.splits)
    from l have "v \<noteq> tag_value a"
      by auto
    with d v t show ?thesis
      by (simp add: classify_def loop_body_def incr_def write_2_def)
  qed
  from d noraise fin mis show ?thesis
    by (simp add: loop_body_nonpositive [of a] loop_nonpositive [of a])
qed

theorem nonpositive_edit_dist_is_exact_match_witness:
  "max_edit_dist args_RG_AC_neg \<le> 0
   \<and> snd (main args_RG_AC_neg mismatch_records) = None
   \<and> length_mismatch args_RG_AC_neg (with_RG ''ACT'' ''r4'')
   \<and> classify args_RG_AC_neg (with_RG ''ACT'' ''r4'') = Inr NoMatch
   \<and> loop_body args_RG_AC_neg init (with_RG ''ACT'' ''r4'')
       = Inr (init\<lparr>outfile_2 := [with_RG ''ACT'' ''r4''], n := [0, 1, 0]\<rparr>)
   \<and> loop args_RG_AC_neg init mismatch_records
       = loop (args_RG_AC_neg\<lparr>max_edit_dist := 0\<rparr>) init mismatch_records"
proof -
  have d: "max_edit_dist args_RG_AC_neg \<le> 0"
    by (simp add: args_RG_AC_neg_def args_RG_A_def)
  have m: "length_mismatch args_RG_AC_neg (with_RG ''ACT'' ''r4'')"
    by (simp add: outcome_defs)
  have r: "init\<lparr>outfile_2 := outfile_2 init @ [with_RG ''ACT'' ''r4''],
        n := (n init)[1 := n init ! 1 + 1]\<rparr>
      = init\<lparr>outfile_2 := [with_RG ''ACT'' ''r4''], n := [0, 1, 0]\<rparr>"
    by (simp add: init_def)
  note t = nonpositive_edit_dist_is_exact_match [OF d, of init "with_RG ''ACT'' ''r4''"
      mismatch_records]
  from t have a1: "loop args_RG_AC_neg init mismatch_records
      = loop (args_RG_AC_neg\<lparr>max_edit_dist := 0\<rparr>) init mismatch_records"
    by (rule conjunct1 [OF conjunct2])
  from t have a2: "snd (main args_RG_AC_neg mismatch_records) = None"
    by blast
  from t m have a3: "classify args_RG_AC_neg (with_RG ''ACT'' ''r4'') = Inr NoMatch"
    by blast
  from t m have "loop_body args_RG_AC_neg init (with_RG ''ACT'' ''r4'')
      = Inr (init\<lparr>outfile_2 := outfile_2 init @ [with_RG ''ACT'' ''r4''],
          n := (n init)[1 := n init ! 1 + 1]\<rparr>)"
    by blast
  with r have a4: "loop_body args_RG_AC_neg init (with_RG ''ACT'' ''r4'')
      = Inr (init\<lparr>outfile_2 := [with_RG ''ACT'' ''r4''], n := [0, 1, 0]\<rparr>)"
    by simp
  from d m a1 a2 a3 a4 show ?thesis
    by simp
qed

text \<open>
  Claim C1, as amended. A run that completes prints four lines. The first reports the
  number of records of the input. The second reports counter 0, which counts the records
  without the tag only under \<^verbatim>\<open>--discard_missing_tags\<close>: it is the number of such
  records when the flag is set and 0 when it is not. The third reports the number of
  records written to the second output file, which then includes the records without the
  tag, and the fourth the number of records written to the first.
\<close>

theorem summary_missing_count:
  "snd (main a infile) = None \<Longrightarrow>
     stdout (fst (main a infile)) =
       [line_processed (length infile),
        line_missing a (if discard_missing_tags a then count_missing a infile else 0),
        line_nomatch a (length (nomatches a infile)),
        line_match a (length (matches a infile))]"
proof -
  assume "snd (main a infile) = None"
  then have all: "processed a infile = infile"
    by (simp add: main_error split: if_splits)
  have init3: "length (n init) = 3"
    by (simp add: init_def)
  have tot: "sum_list (n (fst (loop a init infile))) = length infile"
    using loop_sum [OF init3, of a infile] all by (simp add: init_def)
  have c0: "n (fst (loop a init infile)) ! 0
      = (if discard_missing_tags a then count_missing a infile else 0)"
    using loop_n0 [OF init3, of a infile] all by (simp add: init_def)
  have c1: "n (fst (loop a init infile)) ! 1 = length (nomatches a infile)"
    using loop_n1 [OF init3, of a infile] all by (simp add: init_def)
  have c2: "n (fst (loop a init infile)) ! 2 = length (matches a infile)"
    using loop_n2 [OF init3, of a infile] all by (simp add: init_def)
  from all tot c0 c1 c2 show ?thesis
    by (simp add: main_stdout summary_def)
qed

theorem summary_missing_count_witness:
  "snd (main args_RG_A_discard five_records) = None
   \<and> discard_missing_tags args_RG_A_discard
   \<and> count_missing args_RG_A_discard five_records = 1
   \<and> stdout (fst (main args_RG_A_discard five_records)) ! 1
       = ''Found 1 lines without the tag RG''
   \<and> snd (main args_RG_A five_records) = None
   \<and> \<not> discard_missing_tags args_RG_A
   \<and> stdout (fst (main args_RG_A five_records)) ! 1 = ''Found 0 lines without the tag RG''
   \<and> length (stdout (fst (main args_RG_A five_records))) = 4"
proof -
  have f1: "snd (main args_RG_A_discard five_records) = None"
    by (simp add: run_five_discard)
  have f2: "snd (main args_RG_A five_records) = None"
    by (simp add: run_five)
  have c: "count_missing args_RG_A_discard five_records = 1"
    by (simp add: outcome_defs)
  have l1: "line_missing args_RG_A_discard 1 = ''Found 1 lines without the tag RG''"
    by (simp add: line_missing_def fmt_d_def str_nat.simps args_RG_A_discard_def
        args_RG_A_def)
  have l0: "line_missing args_RG_A 0 = ''Found 0 lines without the tag RG''"
    by (simp add: line_missing_def fmt_d_def str_nat.simps args_RG_A_def)
  have d1: "discard_missing_tags args_RG_A_discard"
    by (simp add: args_RG_A_discard_def)
  have d0: "\<not> discard_missing_tags args_RG_A"
    by (simp add: args_RG_A_def)
  show ?thesis
    using f1 f2 c l1 l0 d1 d0 summary_missing_count [OF f1] summary_missing_count [OF f2]
    by simp
qed

text \<open>
  Claim C1 as stated fails without \<^verbatim>\<open>--discard_missing_tags\<close>: on the five records of
  the example one record has no tag, and the second line reports 0.
\<close>

theorem summary_missing_count_counterexample:
  "snd (main args_RG_A five_records) = None
   \<and> \<not> discard_missing_tags args_RG_A
   \<and> count_missing args_RG_A five_records = 1
   \<and> stdout (fst (main args_RG_A five_records)) ! 1 = ''Found 0 lines without the tag RG''
   \<and> stdout (fst (main args_RG_A five_records)) ! 1
       \<noteq> line_missing args_RG_A (count_missing args_RG_A five_records)"
proof -
  have c: "count_missing args_RG_A five_records = 1"
    by (simp add: outcome_defs)
  have l: "line_missing args_RG_A 1 = ''Found 1 lines without the tag RG''"
    by (simp add: line_missing_def fmt_d_def str_nat.simps args_RG_A_def)
  have d0: "\<not> discard_missing_tags args_RG_A"
    by (simp add: args_RG_A_def)
  show ?thesis
    using d0 c l by (simp add: run_five)
qed

text \<open>
  Claim C9, as amended. The script calls \<^verbatim>\<open>close\<close> on the input stream when the loop
  has run to its end. When the loop ends with an exception no \<^verbatim>\<open>close\<close> call is
  reached: the script closes none of the three streams on that path.
\<close>

theorem close_calls:
  "(snd (main a infile) = None \<longrightarrow> infile_closed (fst (main a infile)))
   \<and> (snd (main a infile) \<noteq> None \<longrightarrow>
        \<not> infile_closed (fst (main a infile))
        \<and> \<not> outfile_1_closed (fst (main a infile))
        \<and> \<not> outfile_2_closed (fst (main a infile)))"
  using main_closed [of a infile] by (simp add: main_error)

theorem close_calls_witness:
  "snd (main args_RG_A five_records) = None
   \<and> infile_closed (fst (main args_RG_A five_records))
   \<and> snd (main args_RG_AC_1 mismatch_records) \<noteq> None
   \<and> \<not> infile_closed (fst (main args_RG_AC_1 mismatch_records))
   \<and> \<not> outfile_1_closed (fst (main args_RG_AC_1 mismatch_records))
   \<and> \<not> outfile_2_closed (fst (main args_RG_AC_1 mismatch_records))"
proof -
  have f: "snd (main args_RG_A five_records) = None"
    by (simp add: run_five)
  have g: "snd (main args_RG_AC_1 mismatch_records) \<noteq> None"
    by (simp add: run_mismatch)
  show ?thesis
    using f g close_calls [of args_RG_A five_records]
      close_calls [of args_RG_AC_1 mismatch_records]
    by simp
qed

text \<open>
  Claim C9 as stated fails on a run that the assertion ends: the script has then closed
  none of the three streams.
\<close>

theorem streams_closed_counterexample:
  "snd (main args_RG_AC_1 mismatch_records) = Some AssertionError
   \<and> \<not> infile_closed (fst (main args_RG_AC_1 mismatch_records))
   \<and> \<not> outfile_1_closed (fst (main args_RG_AC_1 mismatch_records))
   \<and> \<not> outfile_2_closed (fst (main args_RG_AC_1 mismatch_records))"
  by (simp add: run_mismatch)

end
